theory Spec2Isabelle
  imports Complex_Main
begin

section \<open>Browser side: overlay.ts\<close>

subsection \<open>Objects, property descriptors and the tool surface\<close>

text \<open>
  \<open>init\<close> works on the global object \<open>target\<close> with \<open>Object.hasOwn\<close> and
  \<open>Object.defineProperty\<close>. Objects live in a store and are named by references, so
  that a property holding an object holds a reference to it. An object is its own
  properties (each with a descriptor) and its extensible flag; prototype chains and
  accessor properties play no part in \<open>init\<close> and are left out.
\<close>

datatype js_value = VUndefined | VFunction string | VObject nat

record property =
  pvalue :: js_value
  writable :: bool
  enumerable :: bool
  configurable :: bool

record js_object =
  own :: "string \<rightharpoonup> property"
  extensible :: bool

record heap =
  objects :: "nat \<rightharpoonup> js_object"
  next_ref :: nat

datatype js_thrown = ErrorObj string | NonError string

text \<open>A property written in an object literal is writable, enumerable and configurable.\<close>

definition literal_prop :: "js_value \<Rightarrow> property" where
  "literal_prop v = \<lparr>pvalue = v, writable = True, enumerable = True, configurable = True\<rparr>"

text \<open>
  The object literal of \<open>init\<close>: the four tools, bound to the imported functions
  \<open>highlightComponent\<close>, \<open>getComponentTree\<close>, \<open>getComponentStates\<close> and
  \<open>queryWastedRender\<close>.
\<close>

definition tools_object :: js_object where
  "tools_object =
     \<lparr>own = [''highlightComponent'' \<mapsto> literal_prop (VFunction ''highlightComponent''),
             ''getComponentTree'' \<mapsto> literal_prop (VFunction ''getComponentTree''),
             ''getComponentStates'' \<mapsto> literal_prop (VFunction ''getComponentStates''),
             ''getUnnecessaryRenderedComponents'' \<mapsto> literal_prop (VFunction ''queryWastedRender'')],
      extensible = True\<rparr>"

definition has_own :: "heap \<Rightarrow> nat \<Rightarrow> string \<Rightarrow> bool" where
  "has_own h r k = (case objects h r of None \<Rightarrow> False | Some ob \<Rightarrow> own ob k \<noteq> None)"

text \<open>
  \<open>init\<close>: return at once when \<open>target\<close> owns the property; otherwise allocate the
  tools object and define the property with \<open>writable: false, configurable: true\<close>
  (\<open>enumerable\<close> is not given and defaults to false). \<open>target\<close> and the property key
  come from \<open>shared/const.js\<close> and are parameters. Defining a new property on an object
  that is not extensible throws a TypeError.
\<close>

definition init :: "nat \<Rightarrow> string \<Rightarrow> heap \<Rightarrow> js_thrown + heap" where
  "init target key h =
     (case objects h target of
        None \<Rightarrow> Inl (ErrorObj ''TypeError'')
      | Some tg \<Rightarrow>
          if own tg key \<noteq> None then Inr h
          else if \<not> extensible tg then Inl (ErrorObj ''TypeError'')
          else
            let r = next_ref h;
                d = \<lparr>pvalue = VObject r, writable = False, enumerable = False, configurable = True\<rparr>
            in Inr \<lparr>objects = (objects h)(r \<mapsto> tools_object, target \<mapsto> tg\<lparr>own := (own tg)(key \<mapsto> d)\<rparr>),
                    next_ref = Suc r\<rparr>)"

text \<open>
  Reading and assigning a property, as \<open>o.k\<close> and \<open>o.k = v\<close> do on own data
  properties. An assignment gives back whether it took place and the store afterwards; a
  refused assignment leaves the store as it was (and throws in strict code).
\<close>

definition js_get :: "heap \<Rightarrow> nat \<Rightarrow> string \<Rightarrow> js_value" where
  "js_get h r k =
     (case objects h r of
        None \<Rightarrow> VUndefined
      | Some ob \<Rightarrow> (case own ob k of None \<Rightarrow> VUndefined | Some p \<Rightarrow> pvalue p))"

definition js_set :: "heap \<Rightarrow> nat \<Rightarrow> string \<Rightarrow> js_value \<Rightarrow> bool \<times> heap" where
  "js_set h r k v =
     (case objects h r of
        None \<Rightarrow> (False, h)
      | Some ob \<Rightarrow>
          (case own ob k of
             Some p \<Rightarrow>
               if writable p
               then (True, h\<lparr>objects := (objects h)(r \<mapsto> ob\<lparr>own := (own ob)(k \<mapsto> p\<lparr>pvalue := v\<rparr>)\<rparr>)\<rparr>)
               else (False, h)
           | None \<Rightarrow>
               if extensible ob
               then (True, h\<lparr>objects := (objects h)(r \<mapsto> ob\<lparr>own := (own ob)(k \<mapsto> literal_prop v)\<rparr>)\<rparr>)
               else (False, h)))"

text \<open>\<open>target.KEY.name\<close>: the tool function a caller reaches through the global.\<close>

definition tool_at :: "heap \<Rightarrow> nat \<Rightarrow> string \<Rightarrow> string \<Rightarrow> js_value" where
  "tool_at h target key name =
     (case js_get h target key of VObject r \<Rightarrow> js_get h r name | _ \<Rightarrow> VUndefined)"

text \<open>A page whose global object (reference 0) is empty and extensible.\<close>

definition empty_page :: heap where
  "empty_page = \<lparr>objects = [0 \<mapsto> \<lparr>own = Map.empty, extensible = True\<rparr>], next_ref = 1\<rparr>"

definition page_after_init :: heap where
  "page_after_init =
     \<lparr>objects = [1 \<mapsto> tools_object,
                 0 \<mapsto> \<lparr>own = [''__VITE_REACT_MCP_TOOLS__'' \<mapsto>
                               \<lparr>pvalue = VObject 1, writable = False, enumerable = False,
                                configurable = True\<rparr>],
                        extensible = True\<rparr>],
      next_ref = 2\<rparr>"

subsection \<open>Commit ingestion\<close>

text \<open>
  The state the \<open>onCommitFiberRoot\<close> handler works on: \<open>fiberRoots\<close> (a Map from
  render id to a Set of roots), \<open>store.currentCommitFrameId\<close>, and the state that
  \<open>collectUnnecessaryRender\<close> keeps (\<open>core/tools/track_wasted_render.js\<close>, a parameter
  here together with the function).

  The frame id is a JavaScript number, a double, that the handler changes with \<open>+= 1\<close>
  only. \<open>js_incr\<close> is that addition on the integers a double can hold, with rounding to
  nearest, ties to even: exact from \<open>-2^53\<close> up to \<open>2^53\<close>, where it stops (\<open>2^53 + 1\<close>
  rounds back to \<open>2^53\<close>); between \<open>2^53\<close> and \<open>2^54\<close> in size the doubles are the even
  integers and the sum falls half way between two of them, the one that is a multiple
  of four being taken; from \<open>2^54\<close> on in size the sum rounds back to the number itself.
\<close>

definition js_incr :: "int \<Rightarrow> int" where
  "js_incr n =
     (if - (2 ^ 53) \<le> n \<and> n < 2 ^ 53 then n + 1
      else if - (2 ^ 54) \<le> n \<and> n < 2 ^ 54 then (if n mod 4 = 0 then n else n + 2)
      else n)"

datatype render_phase = Mount | Update | Unmount

record ('root, 'w) tracking =
  fiberRoots :: "nat \<rightharpoonup> 'root set"
  currentCommitFrameId :: int
  wasted :: 'w

text \<open>
  A callback that may throw gives back the state it leaves and the exception, if any.
  \<open>apply_until_throw\<close> calls it on each element in turn and stops at the first
  exception.
\<close>

fun apply_until_throw ::
  "('a \<Rightarrow> 's \<Rightarrow> 's \<times> js_thrown option) \<Rightarrow> 'a list \<Rightarrow> 's \<Rightarrow> 's \<times> js_thrown option" where
  "apply_until_throw f [] s = (s, None)"
| "apply_until_throw f (x # xs) s =
     (case f x s of
        (s', Some e) \<Rightarrow> (s', Some e)
      | (s', None) \<Rightarrow> apply_until_throw f xs s')"

text \<open>
  \<open>bippy.traverseRenderedFibers(root, cb)\<close> calls \<open>cb(fiber, phase)\<close> for each rendered
  fiber in turn. Which fibers a root holds is bippy's: \<open>rendered\<close> is the list of the
  fibers it reports, with the exception the traversal itself ends in after them, if
  any. An exception of the callback ends the traversal at once.
\<close>

definition traverseRenderedFibers ::
  "('fiber \<times> render_phase) list \<times> js_thrown option \<Rightarrow>
   ('fiber \<Rightarrow> render_phase \<Rightarrow> 's \<Rightarrow> 's \<times> js_thrown option) \<Rightarrow> 's \<Rightarrow> 's \<times> js_thrown option" where
  "traverseRenderedFibers rendered cb s =
     (case apply_until_throw (\<lambda>(fiber, phase). cb fiber phase) (fst rendered) s of
        (s', Some e) \<Rightarrow> (s', Some e)
      | (s', None) \<Rightarrow> (s', snd rendered))"

text \<open>
  The handler: add the root to the set of its render id, classify the fibers in update
  phase, then increment the frame id. \<open>collect\<close> runs while the frame id still has the
  value of this commit, and gets it as its first argument. Nothing in the handler
  catches: an exception of \<open>collect\<close> or of the traversal leaves the handler before the
  increment, with the root added and the fibers classified so far. The result is the
  state afterwards and the exception the handler threw, if any.
\<close>

definition onCommitFiberRoot ::
  "(int \<Rightarrow> 'fiber \<Rightarrow> 'w \<Rightarrow> 'w \<times> js_thrown option) \<Rightarrow>
   ('root \<Rightarrow> ('fiber \<times> render_phase) list \<times> js_thrown option) \<Rightarrow>
   nat \<Rightarrow> 'root \<Rightarrow> ('root, 'w) tracking \<Rightarrow> ('root, 'w) tracking \<times> js_thrown option" where
  "onCommitFiberRoot collect rendered renderId fiberRoot st =
     (let roots = (case fiberRoots st renderId of
                     Some rs \<Rightarrow> (fiberRoots st)(renderId \<mapsto> insert fiberRoot rs)
                   | None \<Rightarrow> (fiberRoots st)(renderId \<mapsto> {fiberRoot}))
      in case traverseRenderedFibers (rendered fiberRoot)
                (\<lambda>fiber phase w.
                   if phase = Update then collect (currentCommitFrameId st) fiber w else (w, None))
                (wasted st) of
           (w, Some e) \<Rightarrow>
             (\<lparr>fiberRoots = roots, currentCommitFrameId = currentCommitFrameId st, wasted = w\<rparr>, Some e)
         | (w, None) \<Rightarrow>
             (\<lparr>fiberRoots = roots, currentCommitFrameId = js_incr (currentCommitFrameId st), wasted = w\<rparr>,
              None))"

text \<open>
  A sequence of commit notifications, in arrival order; the handler is called for each,
  whether or not an earlier call threw. Each commit is given the frame id the store
  holds while the commit is ingested; the ids are returned in call order, each with the
  exception its call ended in, if any.
\<close>

fun record_commits ::
  "(int \<Rightarrow> 'fiber \<Rightarrow> 'w \<Rightarrow> 'w \<times> js_thrown option) \<Rightarrow>
   ('root \<Rightarrow> ('fiber \<times> render_phase) list \<times> js_thrown option) \<Rightarrow>
   (nat \<times> 'root) list \<Rightarrow> ('root, 'w) tracking \<Rightarrow>
   (int \<times> js_thrown option) list \<times> ('root, 'w) tracking" where
  "record_commits collect rendered [] st = ([], st)"
| "record_commits collect rendered ((renderId, fiberRoot) # cs) st =
     (let (st1, e) = onCommitFiberRoot collect rendered renderId fiberRoot st;
          (ids, st') = record_commits collect rendered cs st1
      in ((currentCommitFrameId st, e) # ids, st'))"

subsection \<open>JSON values\<close>

text \<open>
  The data that crosses the bridge is JSON text. A parsed value is a \<open>json\<close>; a number
  is the rational a finite double is. \<open>JSON.stringify\<close> and \<open>JSON.parse\<close> are the
  platform's and are parameters wherever a handler calls them. Two pieces of text the
  handlers build are written out: a number of elements in a template literal
  (\<open>show_nat\<close>, decimal digits), and \<open>JSON.stringify({error: message})\<close> for a string
  \<open>message\<close> (\<open>error_payload\<close>), with the string escapes of ECMAScript's QuoteJSONString
  (\<open>quote\<close>).
\<close>

datatype json = JNull | JBool bool | JNum rat | JStr string | JArr "json list" | JObj "(string \<times> json) list"




definition hex_char :: "nat \<Rightarrow> char" where
  "hex_char d = (if d < 10 then char_of (48 + d) else char_of (87 + d))"

definition quote_char :: "char \<Rightarrow> string" where
  "quote_char c =
     (if c = CHR 0x22 then [CHR 0x5C, CHR 0x22]
      else if c = CHR 0x5C then [CHR 0x5C, CHR 0x5C]
      else if c = CHR 0x08 then [CHR 0x5C, CHR ''b'']
      else if c = CHR 0x0C then [CHR 0x5C, CHR ''f'']
      else if c = CHR 0x0A then [CHR 0x5C, CHR ''n'']
      else if c = CHR 0x0D then [CHR 0x5C, CHR ''r'']
      else if c = CHR 0x09 then [CHR 0x5C, CHR ''t'']
      else if (of_char c :: nat) < 32
        then [CHR 0x5C, CHR ''u'', CHR ''0'', CHR ''0'',
              hex_char (of_char c div 16), hex_char (of_char c mod 16)]
      else [c])"

definition quote :: "string \<Rightarrow> string" where
  "quote s = CHR 0x22 # concat (map quote_char s) @ [CHR 0x22]"

definition error_payload :: "string \<Rightarrow> string" where
  "error_payload message = ''{'' @ quote ''error'' @ '':'' @ quote message @ ''}''"

text \<open>
  \<open>d?.k\<close> and \<open>d.k\<close> on a parsed value: an object gives the member (the last one when
  the text repeated the key), anything else has no such member. \<open>!!v\<close> is \<open>truthy\<close>.
\<close>

fun member_of :: "json \<Rightarrow> string \<Rightarrow> json option" where
  "member_of (JObj kvs) k = map_of (rev kvs) k"
| "member_of _ k = None"

fun truthy :: "json option \<Rightarrow> bool" where
  "truthy None = False"
| "truthy (Some JNull) = False"
| "truthy (Some (JBool b)) = b"
| "truthy (Some (JNum n)) = (n \<noteq> 0)"
| "truthy (Some (JStr s)) = (s \<noteq> [])"
| "truthy (Some _) = True"

subsection \<open>The handlers of the bridge events\<close>

text \<open>
  A handler gets the event's data and either throws or returns; what it passed to
  \<open>hot.send\<close> is the list of events it returns. \<open>JSON.parse\<close>, the tools behind
  \<open>target.__VITE_REACT_MCP_TOOLS__\<close> and \<open>JSON.stringify\<close> on a tool's result (which
  throws on a cyclic structure or a BigInt) are parameters; each may throw.
\<close>

record hot_event =
  event :: string
  payload :: string

text \<open>\<open>error instanceof Error ? error.message : fallback\<close>, and the same with \<open>String(error)\<close>.\<close>

definition message_or :: "string \<Rightarrow> js_thrown \<Rightarrow> string" where
  "message_or fallback e = (case e of ErrorObj m \<Rightarrow> m | NonError _ \<Rightarrow> fallback)"

definition thrown_message :: "js_thrown \<Rightarrow> string" where
  "thrown_message e = (case e of ErrorObj m \<Rightarrow> m | NonError s \<Rightarrow> s)"


record query_options =
  allComponents :: bool
  debugMode :: bool

text \<open>
  \<open>get-unnecessary-rerenders\<close>: \<open>deserializedData.timeframe\<close> has no \<open>?.\<close>, so data that
  parses to \<open>null\<close> throws a TypeError; an exception of the tool leaves the handler too.
  Only \<open>JSON.stringify(wastedRenders)\<close> is inside the \<open>try\<close>.
\<close>

definition on_get_unnecessary_rerenders ::
  "(string \<Rightarrow> js_thrown + json) \<Rightarrow> (json option \<Rightarrow> query_options \<Rightarrow> js_thrown + 'v) \<Rightarrow>
   ('v \<Rightarrow> js_thrown + string) \<Rightarrow> string \<Rightarrow> js_thrown + hot_event list" where
  "on_get_unnecessary_rerenders json_parse getUnnecessaryRenderedComponents stringify data =
     (case json_parse data of
        Inl e \<Rightarrow> Inl (ErrorObj (message_or ''Data is not deserializable'' e @ '': '' @ data))
      | Inr deserializedData \<Rightarrow>
          if deserializedData = JNull then Inl (ErrorObj ''TypeError'')
          else
            (case getUnnecessaryRenderedComponents (member_of deserializedData ''timeframe'')
                    \<lparr>allComponents = truthy (member_of deserializedData ''allComponents''),
                     debugMode = truthy (member_of deserializedData ''debugMode'')\<rparr> of
               Inl e \<Rightarrow> Inl e
             | Inr wastedRenders \<Rightarrow>
                 let response =
                   (case stringify wastedRenders of
                      Inr s \<Rightarrow> s
                    | Inl e \<Rightarrow> error_payload (thrown_message e))
                 in Inr [\<lparr>event = ''get-unnecessary-rerenders-response'', payload = response\<rparr>]))"

section \<open>Server side: mcp/index.ts\<close>

subsection \<open>State\<close>

text \<open>
  What the dev server holds: the \<open>transports\<close> Map of \<open>instrumentViteDevServer\<close>, the
  events published with \<open>viteDevServer.ws.send\<close> (oldest first), the tool calls that
  are suspended in \<open>await waitForEvent(...)\<close>, and the outcome of each call that has
  settled. A call is named by a number taken from \<open>next_call\<close> when the request handler
  starts; \<open>psession\<close> notes the session the request came in on (the handler itself never
  looks at it). \<open>now\<close> is a clock in ticks.
\<close>

record ws_event =
  etype :: string
  ename :: string
  edata :: string

record text_content =
  ctype :: string
  ctext :: string

record call_tool_result =
  content :: "text_content list"

datatype call_error = Error string | TimeoutError string

datatype outcome = Returned call_tool_result | Thrown call_error

record pending =
  pcall :: nat
  psession :: string
  pevent :: string
  pdeadline :: nat
  pwaiting :: bool

record 't server_state =
  transports :: "string \<rightharpoonup> 't"
  outbox :: "ws_event list"
  listeners :: "pending list"
  results :: "nat \<rightharpoonup> outcome"
  next_call :: nat
  now :: nat

definition initial_state :: "'t server_state" where
  "initial_state =
     \<lparr>transports = Map.empty, outbox = [], listeners = [], results = Map.empty,
      next_call = 0, now = 0\<rparr>"

subsection \<open>The tool-call request handler\<close>

text \<open>
  The four schemas of \<open>mcp/schema.js\<close> are parameters: \<open>parse\<close> gives the parsed
  arguments or throws a ZodError, of which the handler uses
  \<open>JSON.stringify(error.errors)\<close>, the text on the left. \<open>request.params.arguments\<close>
  may be absent.
\<close>

record schemas =
  HighlightComponentSchema :: "json option \<Rightarrow> string + json"
  GetComponentTreeSchema :: "json option \<Rightarrow> string + json"
  GetComponentStatesSchema :: "json option \<Rightarrow> string + json"
  GetUnnecessaryRerendersSchema :: "json option \<Rightarrow> string + json"

definition ws_send :: "ws_event \<Rightarrow> 't server_state \<Rightarrow> 't server_state" where
  "ws_send e st = st\<lparr>outbox := outbox st @ [e]\<rparr>"

text \<open>
  Modelled from the spec: \<open>waitForEvent\<close> of \<open>shared/node_util.js\<close>, which is not among
  the sources. By the spec the caller is suspended "until a matching response event
  arrives or a timeout elapses" and the timeout is fixed; responses are "matched to
  requests by event-kind and per-kind serialization, not by an explicit request id"; a
  second call of a kind "must wait its turn and resolve only after its own dedicated
  response event"; and "stale responses arriving after timeout must be discarded, not
  misapplied to a newer pending call".

  So the waits are kept in the order of their requests. \<open>waitForEvent\<close> puts the caller
  at the end, waiting, with the deadline \<open>now + timeout\<close>. \<open>ws_receive\<close> takes the oldest
  entry on the event's name out: if it is still waiting, its call resolves with the
  event's data; if it has timed out, the event is the stale response to it and is
  dropped; an event with no entry on its name is dropped too. \<open>tick\<close> advances the
  clock and rejects the waiting entries whose deadline has come with a timeout error;
  they stay in their place, no longer waiting, for the response the browser still owes.
  The handler passes no timeout of its own, so the fixed timeout is one parameter for
  all calls. The request itself is published by the handler before it waits (see
  \<open>bridge_call\<close>): what is serialized is the order in which calls get their responses.
\<close>

definition waitForEvent :: "nat \<Rightarrow> nat \<Rightarrow> string \<Rightarrow> string \<Rightarrow> 't server_state \<Rightarrow> 't server_state" where
  "waitForEvent timeout c session eventName st =
     st\<lparr>listeners := listeners st @
          [\<lparr>pcall = c, psession = session, pevent = eventName, pdeadline = now st + timeout,
            pwaiting = True\<rparr>]\<rparr>"

text \<open>
  The rest of the handler once \<open>waitForEvent\<close> settles: a response is returned as one
  text item holding \<open>response.data\<close>; a rejection is not a ZodError and is thrown on.
\<close>

definition text_result :: "string \<Rightarrow> call_tool_result" where
  "text_result d = \<lparr>content = [\<lparr>ctype = ''text'', ctext = d\<rparr>]\<rparr>"

definition settle ::
  "(pending \<Rightarrow> bool) \<Rightarrow> (pending \<Rightarrow> outcome) \<Rightarrow> pending list \<Rightarrow> (nat \<rightharpoonup> outcome) \<Rightarrow> (nat \<rightharpoonup> outcome)" where
  "settle hit out ls rs = fold (\<lambda>l r. if hit l then r(pcall l \<mapsto> out l) else r) ls rs"

fun take_oldest :: "string \<Rightarrow> pending list \<Rightarrow> (pending \<times> pending list) option" where
  "take_oldest eventName [] = None"
| "take_oldest eventName (l # ls) =
     (if pevent l = eventName then Some (l, ls)
      else (case take_oldest eventName ls of
              None \<Rightarrow> None
            | Some (m, rest) \<Rightarrow> Some (m, l # rest)))"

definition ws_receive :: "string \<Rightarrow> string \<Rightarrow> 't server_state \<Rightarrow> 't server_state" where
  "ws_receive eventName d st =
     (case take_oldest eventName (listeners st) of
        None \<Rightarrow> st
      | Some (l, rest) \<Rightarrow>
          st\<lparr>listeners := rest,
             results := (if pwaiting l then (results st)(pcall l \<mapsto> Returned (text_result d))
                         else results st)\<rparr>)"

definition tick :: "'t server_state \<Rightarrow> 't server_state" where
  "tick st =
     st\<lparr>now := Suc (now st),
        listeners := map (\<lambda>l. if pwaiting l \<and> pdeadline l \<le> Suc (now st) then l\<lparr>pwaiting := False\<rparr> else l)
                       (listeners st),
        results := settle (\<lambda>l. pwaiting l \<and> pdeadline l \<le> Suc (now st))
                     (\<lambda>l. Thrown (TimeoutError (pevent l))) (listeners st) (results st)\<rparr>"

text \<open>
  One case of the handler's \<open>switch\<close>: parse the arguments, publish the request event
  with the serialized arguments, wait for the response event. A ZodError is caught and
  thrown again as \<open>Error("Invalid input: ...")\<close>. \<open>stringify\<close> is \<open>JSON.stringify\<close> on
  the parsed arguments.
\<close>

definition bridge_call ::
  "(json \<Rightarrow> string) \<Rightarrow> nat \<Rightarrow> (json option \<Rightarrow> string + json) \<Rightarrow> string \<Rightarrow> string \<Rightarrow> nat \<Rightarrow>
   string \<Rightarrow> json option \<Rightarrow> 't server_state \<Rightarrow> 't server_state" where
  "bridge_call stringify timeout parse eventName responseName c session arguments st =
     (case parse arguments of
        Inl issues \<Rightarrow> st\<lparr>results := (results st)(c \<mapsto> Thrown (Error (''Invalid input: '' @ issues)))\<rparr>
      | Inr args \<Rightarrow>
          waitForEvent timeout c session responseName
            (ws_send \<lparr>etype = ''custom'', ename = eventName, edata = stringify args\<rparr> st))"

definition call_tool ::
  "schemas \<Rightarrow> (json \<Rightarrow> string) \<Rightarrow> nat \<Rightarrow> string \<Rightarrow> string \<Rightarrow> json option \<Rightarrow>
   't server_state \<Rightarrow> 't server_state" where
  "call_tool S stringify timeout session name arguments st =
     (let c = next_call st; st0 = st\<lparr>next_call := Suc c\<rparr> in
      if name = ''highlight-component'' then
        bridge_call stringify timeout (HighlightComponentSchema S)
          ''highlight-component'' ''highlight-component-response'' c session arguments st0
      else if name = ''get-component-tree'' then
        bridge_call stringify timeout (GetComponentTreeSchema S)
          ''get-component-tree'' ''get-component-tree-response'' c session arguments st0
      else if name = ''get-component-states'' then
        bridge_call stringify timeout (GetComponentStatesSchema S)
          ''get-component-states'' ''get-component-states-response'' c session arguments st0
      else if name = ''get-unnecessary-rerenders'' then
        bridge_call stringify timeout (GetUnnecessaryRerendersSchema S)
          ''get-unnecessary-rerenders'' ''get-unnecessary-rerenders-response'' c session arguments st0
      else st0\<lparr>results := (results st0)(c \<mapsto> Thrown (Error (''Unknown tool: '' @ name)))\<rparr>)"

text \<open>The schema a tool name selects, for stating results about all four tools at once.\<close>

definition schema_of :: "schemas \<Rightarrow> string \<Rightarrow> (json option \<Rightarrow> string + json) option" where
  "schema_of S name =
     (if name = ''highlight-component'' then Some (HighlightComponentSchema S)
      else if name = ''get-component-tree'' then Some (GetComponentTreeSchema S)
      else if name = ''get-component-states'' then Some (GetComponentStatesSchema S)
      else if name = ''get-unnecessary-rerenders'' then Some (GetUnnecessaryRerendersSchema S)
      else None)"

subsection \<open>Sessions and the HTTP endpoints\<close>

text \<open>
  \<open>/sse\<close> stores the new transport under its session id and removes it when the
  response closes; nothing else happens on close.
\<close>

definition sse_open :: "string \<Rightarrow> 't \<Rightarrow> 't server_state \<Rightarrow> 't server_state" where
  "sse_open sessionId transport st = st\<lparr>transports := (transports st)(sessionId \<mapsto> transport)\<rparr>"

definition sse_close :: "string \<Rightarrow> 't server_state \<Rightarrow> 't server_state" where
  "sse_close sessionId st = st\<lparr>transports := (transports st)(sessionId := None)\<rparr>"

record http_request =
  rmethod :: string
  rurl :: "string option"

datatype 't http_end = End nat string | HandlePostMessage 't

record 't http_reply =
  headers :: "(string \<times> string) list"
  finish :: "'t http_end"

text \<open>\<open>req.url?.split('?').pop() || ''\<close>: what follows the last question mark, or all of it.\<close>

definition query_text :: "string option \<Rightarrow> string" where
  "query_text u = (case u of None \<Rightarrow> [] | Some s \<Rightarrow> rev (takeWhile (\<lambda>c. c \<noteq> CHR ''?'') (rev s)))"

definition cors_headers :: "(string \<times> string) list" where
  "cors_headers =
     [(''Access-Control-Allow-Origin'', ''*''),
      (''Access-Control-Allow-Methods'', ''POST, OPTIONS''),
      (''Access-Control-Allow-Headers'', ''content-type'')]"

text \<open>
  The \<open>/messages\<close> middleware. \<open>search_get q k\<close> is \<open>new URLSearchParams(q).get(k)\<close>, the
  platform's. The middleware itself writes nothing to the server's state; the message
  it hands to \<open>transport.handlePostMessage\<close> is the SDK's to process.
\<close>

definition messages_handler ::
  "(string \<Rightarrow> string \<Rightarrow> string option) \<Rightarrow> 't server_state \<Rightarrow> http_request \<Rightarrow>
   't http_reply \<times> 't server_state" where
  "messages_handler search_get st req =
     (if rmethod req = ''OPTIONS'' then (\<lparr>headers = cors_headers, finish = End 204 []\<rparr>, st)
      else if rmethod req \<noteq> ''POST''
        then (\<lparr>headers = cors_headers, finish = End 405 ''Method Not Allowed''\<rparr>, st)
      else
        (case search_get (query_text (rurl req)) ''sessionId'' of
           None \<Rightarrow> (\<lparr>headers = cors_headers, finish = End 400 ''Bad Request''\<rparr>, st)
         | Some clientId \<Rightarrow>
             if clientId = [] then (\<lparr>headers = cors_headers, finish = End 400 ''Bad Request''\<rparr>, st)
             else
               (case transports st clientId of
                  None \<Rightarrow> (\<lparr>headers = cors_headers, finish = End 404 ''Not Found''\<rparr>, st)
                | Some transport \<Rightarrow>
                    (\<lparr>headers = cors_headers, finish = HandlePostMessage transport\<rparr>, st))))"

definition status_of :: "'t http_reply \<Rightarrow> nat option" where
  "status_of r = (case finish r of End code _ \<Rightarrow> Some code | HandlePostMessage _ \<Rightarrow> None)"

subsection \<open>Runs of the server\<close>

datatype 't input =
    CallTool string string "json option"
  | WsEvent string string
  | Tick
  | SseOpen string 't
  | SseClose string

fun step ::
  "schemas \<Rightarrow> (json \<Rightarrow> string) \<Rightarrow> nat \<Rightarrow> 't input \<Rightarrow> 't server_state \<Rightarrow> 't server_state" where
  "step S stringify timeout (CallTool session name arguments) st =
     call_tool S stringify timeout session name arguments st"
| "step S stringify timeout (WsEvent eventName d) st = ws_receive eventName d st"
| "step S stringify timeout Tick st = tick st"
| "step S stringify timeout (SseOpen sessionId transport) st = sse_open sessionId transport st"
| "step S stringify timeout (SseClose sessionId) st = sse_close sessionId st"

definition run ::
  "schemas \<Rightarrow> (json \<Rightarrow> string) \<Rightarrow> nat \<Rightarrow> 't input list \<Rightarrow> 't server_state \<Rightarrow> 't server_state" where
  "run S stringify timeout ins st = fold (step S stringify timeout) ins st"

text \<open>An input that is not a bridge event of the given name.\<close>

fun quiet :: "string \<Rightarrow> 't input \<Rightarrow> bool" where
  "quiet eventName (WsEvent n d) = (n \<noteq> eventName)"
| "quiet eventName _ = True"

section \<open>Reference points taken from the specification\<close>



text \<open>
  Modelled from the spec: \<open>HighlightComponentSchema\<close> of \<open>mcp/schema.js\<close>, which is not
  among the sources: the arguments are an object whose \<open>componentName\<close> is a non-empty
  string. It serves as the example schema; the results below hold for any schema.
\<close>

definition spec_HighlightComponentSchema :: "json option \<Rightarrow> string + json" where
  "spec_HighlightComponentSchema arguments =
     (case arguments of
        Some (JObj kvs) \<Rightarrow>
          (case map_of (rev kvs) ''componentName'' of
             Some (JStr s) \<Rightarrow>
               if s \<noteq> [] then Inr (JObj [(''componentName'', JStr s)])
               else Inl ''componentName: too_small''
           | Some _ \<Rightarrow> Inl ''componentName: invalid_type''
           | None \<Rightarrow> Inl ''componentName: required'')
      | _ \<Rightarrow> Inl ''invalid_type'')"

text \<open>An example schema for the option objects of the other tools: any object passes.\<close>

definition any_object_schema :: "json option \<Rightarrow> string + json" where
  "any_object_schema arguments =
     (case arguments of Some (JObj kvs) \<Rightarrow> Inr (JObj kvs) | _ \<Rightarrow> Inl ''invalid_type'')"

definition example_schemas :: schemas where
  "example_schemas =
     \<lparr>HighlightComponentSchema = spec_HighlightComponentSchema,
      GetComponentTreeSchema = any_object_schema,
      GetComponentStatesSchema = spec_HighlightComponentSchema,
      GetUnnecessaryRerendersSchema = any_object_schema\<rparr>"

text \<open>
  An example of \<open>URLSearchParams.get\<close> for query texts without escapes: the pairs are
  separated by \<open>&\<close>, name and value by the first \<open>=\<close>, and the first pair of the name
  gives the value.
\<close>

fun split_on :: "char \<Rightarrow> string \<Rightarrow> string list" where
  "split_on sep [] = [] # []"
| "split_on sep (c # cs) =
     (if c = sep then [] # split_on sep cs
      else (case split_on sep cs of [] \<Rightarrow> [c] # [] | w # ws \<Rightarrow> (c # w) # ws))"

definition plain_search_get :: "string \<Rightarrow> string \<Rightarrow> string option" where
  "plain_search_get q k =
     map_of (map (\<lambda>p. (takeWhile (\<lambda>c. c \<noteq> CHR ''='') p, drop 1 (dropWhile (\<lambda>c. c \<noteq> CHR ''='') p)))
               (filter (\<lambda>p. p \<noteq> []) (split_on CHR ''&'' q))) k"

section \<open>Notions used in the results\<close>


text \<open>
  Examples of \<open>JSON.stringify\<close> and \<open>JSON.parse\<close> that know the two values the
  example runs send: \<open>{}\<close> and \<open>{"componentName":"App"}\<close>.
\<close>

definition example_stringify :: "json \<Rightarrow> string" where
  "example_stringify v =
     (if v = JObj [(''componentName'', JStr ''App'')]
      then ''{'' @ quote ''componentName'' @ '':'' @ quote ''App'' @ ''}''
      else ''{}'')"


text \<open>
  The states the server can reach keep the calls apart: every entry of the queue has a
  number already given out, an entry still waiting has no outcome yet, numbers not yet
  given out have no outcome, and no two entries share a number.
\<close>

definition orderly :: "'t server_state \<Rightarrow> bool" where
  "orderly st \<longleftrightarrow>
     (\<forall>l\<in>set (listeners st). pcall l < next_call st \<and> (pwaiting l \<longrightarrow> results st (pcall l) = None)) \<and>
     (\<forall>c\<ge>next_call st. results st c = None) \<and>
     distinct (map pcall (listeners st))"

text \<open>
  The call \<open>c\<close> that waits for the event \<open>resp\<close> with deadline \<open>D\<close>: before \<open>D\<close> it is
  waiting without an outcome, from \<open>D\<close> on its outcome is the timeout error.
\<close>

definition awaiting :: "nat \<Rightarrow> string \<Rightarrow> nat \<Rightarrow> 't server_state \<Rightarrow> bool" where
  "awaiting c resp D st \<longleftrightarrow>
     orderly st \<and> c < next_call st \<and>
     (if now st < D
      then results st c = None \<and>
           (\<exists>l\<in>set (listeners st). pcall l = c \<and> pevent l = resp \<and> pdeadline l = D \<and> pwaiting l)
      else results st c = Some (Thrown (TimeoutError resp)))"



definition call_then_close :: "unit input list" where
  "call_then_close =
     [SseOpen ''s1'' (), CallTool ''s1'' ''get-component-tree'' (Some (JObj [])), SseClose ''s1'']"

definition store_at :: "int \<Rightarrow> (unit, unit) tracking" where
  "store_at n = \<lparr>fiberRoots = Map.empty, currentCommitFrameId = n, wasted = ()\<rparr>"

section \<open>Commit ingestion: results\<close>

lemma onCommitFiberRoot_frame:
  "currentCommitFrameId (fst (onCommitFiberRoot collect rendered renderId fiberRoot st)) =
     (case snd (onCommitFiberRoot collect rendered renderId fiberRoot st) of
        None \<Rightarrow> js_incr (currentCommitFrameId st)
      | Some e \<Rightarrow> currentCommitFrameId st)"
  by (simp add: onCommitFiberRoot_def Let_def split: prod.splits option.splits)

lemma js_incr_exact: "- (2 ^ 53) \<le> n \<Longrightarrow> n < 2 ^ 53 \<Longrightarrow> js_incr n = n + 1"
  by (simp add: js_incr_def)

lemma sorted_wrt_offsets: "sorted_wrt (<) (map (\<lambda>i. (b::int) + int i) [0..<n])"
  by (simp add: sorted_wrt_map sorted_wrt_iff_nth_less)

lemma offsets_Cons:
  "map (\<lambda>i. (b::int) + int i) [0..<Suc n] = b # map (\<lambda>i. b + 1 + int i) [0..<n]"
  by (simp add: upt_rec [of 0] map_Suc_upt [symmetric] del: upt_Suc)

lemma record_commits_quiet:
  assumes "- (2 ^ 53) \<le> currentCommitFrameId st"
    and "currentCommitFrameId st + int (length cs) \<le> 2 ^ 53"
    and "list_all (\<lambda>r. snd r = None) (fst (record_commits collect rendered cs st))"
  shows "map fst (fst (record_commits collect rendered cs st)) =
       map (\<lambda>i. currentCommitFrameId st + int i) [0..<length cs] \<and>
     currentCommitFrameId (snd (record_commits collect rendered cs st)) =
       currentCommitFrameId st + int (length cs)"
  using assms
proof (induction cs arbitrary: st)
  case Nil
  show ?case by simp
next
  case (Cons c cs)
  obtain renderId fiberRoot where c: "c = (renderId, fiberRoot)" by (cases c)
  obtain st1 e where oc: "onCommitFiberRoot collect rendered renderId fiberRoot st = (st1, e)"
    by (cases "onCommitFiberRoot collect rendered renderId fiberRoot st")
  have e: "e = None" and rest: "list_all (\<lambda>r. snd r = None) (fst (record_commits collect rendered cs st1))"
    using Cons.prems(3) by (simp_all add: c oc split_beta)
  have "currentCommitFrameId st < 2 ^ 53" using Cons.prems(2) by simp
  then have f: "currentCommitFrameId st1 = currentCommitFrameId st + 1"
    using onCommitFiberRoot_frame [of collect rendered renderId fiberRoot st] Cons.prems(1) oc e
    by (simp add: js_incr_exact)
  have ih: "map fst (fst (record_commits collect rendered cs st1)) =
       map (\<lambda>i. currentCommitFrameId st1 + int i) [0..<length cs] \<and>
     currentCommitFrameId (snd (record_commits collect rendered cs st1)) =
       currentCommitFrameId st1 + int (length cs)"
    using Cons.IH [of st1] Cons.prems(1,2) rest f by simp
  show ?case
    using ih f by (simp add: c oc split_beta offsets_Cons del: upt_Suc)
qed

text \<open>
  C2, as the code has it. For every sequence of commit notifications in which no call of
  the handler throws and the frame id stays where a double counts exactly (at least
  \<open>-2^53\<close> at the start, at most \<open>2^53\<close> after the last commit), the commit ids
  assigned are strictly increasing integers, and they follow the arrival order: the
  commit that arrives as number \<open>i\<close> (from 0) gets the id that the store held at the
  start plus \<open>i\<close>.
\<close>

theorem commit_ids_increase_while_exact:
  assumes "- (2 ^ 53) \<le> currentCommitFrameId st"
    and "currentCommitFrameId st + int (length cs) \<le> 2 ^ 53"
    and "list_all (\<lambda>r. snd r = None) (fst (record_commits collect rendered cs st))"
  shows "sorted_wrt (<) (map fst (fst (record_commits collect rendered cs st))) \<and>
     map fst (fst (record_commits collect rendered cs st)) =
       map (\<lambda>i. currentCommitFrameId st + int i) [0..<length cs] \<and>
     currentCommitFrameId (snd (record_commits collect rendered cs st)) =
       currentCommitFrameId st + int (length cs)"
  using record_commits_quiet [OF assms] by (simp add: sorted_wrt_offsets)

lemma three_commits_near_limit:
  "fst (record_commits (\<lambda>i f w. (w, None)) (\<lambda>r. ([((), Update)], None)) [(0, ()), (0, ()), (0, ())]
     (store_at 9007199254740989)) =
   [(9007199254740989, None), (9007199254740990, None), (9007199254740991, None)]"
  by (simp add: store_at_def onCommitFiberRoot_def traverseRenderedFibers_def js_incr_def)

theorem commit_ids_increase_while_exact_witness:
  "- (2 ^ 53) \<le> currentCommitFrameId (store_at 9007199254740989) \<and>
   currentCommitFrameId (store_at 9007199254740989) + int (length [(0::nat, ()), (0, ()), (0, ())]) \<le> 2 ^ 53 \<and>
   list_all (\<lambda>r. snd r = None)
     (fst (record_commits (\<lambda>i f w. (w, None)) (\<lambda>r. ([((), Update)], None)) [(0, ()), (0, ()), (0, ())]
        (store_at 9007199254740989))) \<and>
   map fst (fst (record_commits (\<lambda>i f w. (w, None)) (\<lambda>r. ([((), Update)], None)) [(0, ()), (0, ()), (0, ())]
        (store_at 9007199254740989))) =
     [9007199254740989, 9007199254740990, 9007199254740991] \<and>
   currentCommitFrameId (snd (record_commits (\<lambda>i f w. (w, None)) (\<lambda>r. ([((), Update)], None))
        [(0, ()), (0, ()), (0, ())] (store_at 9007199254740989))) = 9007199254740992"
proof -
  have a: "- (2 ^ 53) \<le> currentCommitFrameId (store_at 9007199254740989)"
    by (simp add: store_at_def)
  have b: "currentCommitFrameId (store_at 9007199254740989) + int (length [(0::nat, ()), (0, ()), (0, ())]) \<le> 2 ^ 53"
    by (simp add: store_at_def)
  have c: "list_all (\<lambda>r. snd r = None)
     (fst (record_commits (\<lambda>i f w. (w, None)) (\<lambda>r. ([((), Update)], None)) [(0, ()), (0, ()), (0, ())]
        (store_at 9007199254740989)))"
    unfolding three_commits_near_limit by simp
  have s: "currentCommitFrameId (store_at 9007199254740989) = 9007199254740989"
    by (simp add: store_at_def)
  have u: "[0..<length [(0::nat, ()), (0, ()), (0, ())]] = [0, 1, 2]"
    by (simp add: upt_rec)
  show ?thesis
    using a b c commit_ids_increase_while_exact [OF a b c]
    unfolding s u by simp
qed

text \<open>
  C2, as stated, fails. From the frame id \<open>2^53 - 1\<close> three commits get the ids
  \<open>2^53 - 1\<close>, \<open>2^53\<close> and \<open>2^53\<close> again: a double does not count past \<open>2^53\<close>. And
  when the classifier throws, the handler is left before the increment: two commits
  both get the id 0.
\<close>

theorem commit_ids_repeat:
  "map fst (fst (record_commits (\<lambda>i f w. (w, None)) (\<lambda>r. ([((), Update)], None)) [(0, ()), (0, ()), (0, ())]
     (store_at 9007199254740991))) =
     [9007199254740991, 9007199254740992, 9007199254740992] \<and>
   fst (record_commits (\<lambda>i f w. (w, Some (ErrorObj ''boom''))) (\<lambda>r. ([((), Update)], None)) [(0, ()), (0, ())]
     (store_at 0)) =
     [(0, Some (ErrorObj ''boom'')), (0, Some (ErrorObj ''boom''))]"
  by (simp add: store_at_def onCommitFiberRoot_def traverseRenderedFibers_def js_incr_def)

lemma apply_until_throw_filter:
  "apply_until_throw (\<lambda>(fiber, phase) w. if phase = Update then f fiber w else (w, None)) xs w =
     apply_until_throw f (map fst (filter (\<lambda>(fiber, phase). phase = Update) xs)) w"
  by (induction xs arbitrary: w) (auto split: prod.splits option.splits)

lemma apply_until_throw_total:
  "apply_until_throw (\<lambda>x w. (g x w, None)) xs w = (fold g xs w, None)"
  by (induction xs arbitrary: w) simp_all

lemma no_update_among_mounts:
  "filter (\<lambda>(fiber, phase). phase = Update) (map (\<lambda>fiber. (fiber, Mount)) ys) = []"
  by (induction ys) simp_all

lemma wasted_onCommitFiberRoot:
  "wasted (fst (onCommitFiberRoot collect rendered renderId fiberRoot st)) =
     fst (apply_until_throw (collect (currentCommitFrameId st))
       (map fst (filter (\<lambda>(fiber, phase). phase = Update) (fst (rendered fiberRoot)))) (wasted st))"
proof -
  have "(\<lambda>(fiber, phase). \<lambda>w. if phase = Update then collect (currentCommitFrameId st) fiber w else (w, None)) =
      (\<lambda>(fiber, phase) w. if phase = Update then collect (currentCommitFrameId st) fiber w else (w, None))"
    by simp
  then show ?thesis
    using apply_until_throw_filter [of "collect (currentCommitFrameId st)" "fst (rendered fiberRoot)" "wasted st"]
    by (simp add: onCommitFiberRoot_def traverseRenderedFibers_def Let_def split: prod.splits option.splits)
qed

text \<open>
  C3. \<open>collectUnnecessaryRender\<close> is invoked exactly for the fibers the traversal reports
  in update phase, in traversal order, and for no other: the classifier's state after a
  commit is its state before with \<open>collect\<close> applied to those fibers in turn (up to the
  first exception, if \<open>collect\<close> throws); when \<open>collect\<close> never throws that is \<open>collect\<close>
  folded over them. A commit all of whose fibers are in mount phase leaves the
  classifier's state as it was, whatever \<open>collect\<close> does and however the traversal ends,
  so nothing mounted is ever recorded as wasted.
\<close>

theorem classify_only_update_phase:
  "wasted (fst (onCommitFiberRoot collect rendered renderId fiberRoot st)) =
     fst (apply_until_throw (collect (currentCommitFrameId st))
       (map fst (filter (\<lambda>(fiber, phase). phase = Update) (fst (rendered fiberRoot)))) (wasted st)) \<and>
   wasted (fst (onCommitFiberRoot (\<lambda>i fiber w. (classify i fiber w, None)) (\<lambda>r. (fibers r, None))
       renderId fiberRoot st)) =
     fold (classify (currentCommitFrameId st))
       (map fst (filter (\<lambda>(fiber, phase). phase = Update) (fibers fiberRoot))) (wasted st) \<and>
   wasted (fst (onCommitFiberRoot collect (\<lambda>r. (map (\<lambda>fiber. (fiber, Mount)) (mounted r), ending r))
       renderId fiberRoot st)) =
     wasted st"
proof -
  have a: "wasted (fst (onCommitFiberRoot (\<lambda>i fiber w. (classify i fiber w, None)) (\<lambda>r. (fibers r, None))
       renderId fiberRoot st)) =
     fold (classify (currentCommitFrameId st))
       (map fst (filter (\<lambda>(fiber, phase). phase = Update) (fibers fiberRoot))) (wasted st)"
    by (simp add: wasted_onCommitFiberRoot apply_until_throw_total)
  have b: "wasted (fst (onCommitFiberRoot collect (\<lambda>r. (map (\<lambda>fiber. (fiber, Mount)) (mounted r), ending r))
       renderId fiberRoot st)) = wasted st"
    by (simp add: wasted_onCommitFiberRoot no_update_among_mounts)
  show ?thesis
    using a b by (simp add: wasted_onCommitFiberRoot)
qed

section \<open>The tool surface: results\<close>

lemma init_installed:
  assumes "objects h target = Some tg" "own tg key = None" "extensible tg"
  shows "init target key h =
     Inr \<lparr>objects = (objects h)(next_ref h \<mapsto> tools_object,
              target \<mapsto> tg\<lparr>own := (own tg)(key \<mapsto>
                \<lparr>pvalue = VObject (next_ref h), writable = False, enumerable = False, configurable = True\<rparr>)\<rparr>),
          next_ref = Suc (next_ref h)\<rparr>"
  using assms by (simp add: init_def Let_def)

lemma init_cases:
  assumes "init target key h = Inr h'"
  shows "h' = h \<and> has_own h target key \<or>
    (\<exists>tg. objects h target = Some tg \<and> own tg key = None \<and> extensible tg)"
  using assms by (auto simp: init_def has_own_def Let_def split: option.splits if_splits)

lemma init_empty_page: "init 0 ''__VITE_REACT_MCP_TOOLS__'' empty_page = Inr page_after_init"
  by (auto simp: init_def empty_page_def page_after_init_def Let_def fun_eq_iff)

text \<open>
  C10, as the code has it. Installing the tool surface is idempotent: when \<open>target\<close>
  already owns the property, \<open>init\<close> returns the store unchanged, and after any
  successful \<open>init\<close> the property is owned and a further \<open>init\<close> changes nothing. When
  \<open>init\<close> installs the property (the reference it allocates being unused before), the
  property holds the reference to the new tools object with the four tools, and it is
  not writable: an assignment \<open>target.KEY = v\<close> is refused for every \<open>v\<close> and leaves the
  store as it was. (The tools object itself is an ordinary object; nothing is said about
  assignments to its members.)
\<close>

theorem init_idempotent_property_readonly:
  "(has_own h target key \<longrightarrow> init target key h = Inr h) \<and>
   (init target key h = Inr h' \<longrightarrow> has_own h' target key \<and> init target key h' = Inr h') \<and>
   (\<not> has_own h target key \<and> objects h (next_ref h) = None \<and> init target key h = Inr h' \<longrightarrow>
      js_get h' target key = VObject (next_ref h) \<and>
      objects h' (next_ref h) = Some tools_object \<and>
      (\<forall>v. js_set h' target key v = (False, h')) \<and>
      tool_at h' target key ''highlightComponent'' = VFunction ''highlightComponent'' \<and>
      tool_at h' target key ''getComponentTree'' = VFunction ''getComponentTree'' \<and>
      tool_at h' target key ''getComponentStates'' = VFunction ''getComponentStates'' \<and>
      tool_at h' target key ''getUnnecessaryRenderedComponents'' = VFunction ''queryWastedRender'')"
proof (intro conjI impI)
  assume "has_own h target key"
  then show "init target key h = Inr h"
    by (auto simp: init_def has_own_def split: option.splits)
next
  assume i: "init target key h = Inr h'"
  show "has_own h' target key"
    using i by (auto simp: init_def has_own_def Let_def split: option.splits if_splits)
  then show "init target key h' = Inr h'"
    by (auto simp: init_def has_own_def split: option.splits)
next
  assume a: "\<not> has_own h target key \<and> objects h (next_ref h) = None \<and> init target key h = Inr h'"
  then obtain tg where tg: "objects h target = Some tg" "own tg key = None" "extensible tg"
    using init_cases [of target key h h'] by auto
  have ne: "target \<noteq> next_ref h" using a tg by auto
  have h': "h' = \<lparr>objects = (objects h)(next_ref h \<mapsto> tools_object,
              target \<mapsto> tg\<lparr>own := (own tg)(key \<mapsto>
                \<lparr>pvalue = VObject (next_ref h), writable = False, enumerable = False, configurable = True\<rparr>)\<rparr>),
          next_ref = Suc (next_ref h)\<rparr>"
    using a init_installed [OF tg] by simp
  show "js_get h' target key = VObject (next_ref h)"
    by (simp add: h' js_get_def)
  show "objects h' (next_ref h) = Some tools_object"
    using ne by (simp add: h')
  show "\<forall>v. js_set h' target key v = (False, h')"
    by (simp add: h' js_set_def)
  show "tool_at h' target key ''highlightComponent'' = VFunction ''highlightComponent''"
    using ne by (simp add: h' tool_at_def js_get_def tools_object_def literal_prop_def)
  show "tool_at h' target key ''getComponentTree'' = VFunction ''getComponentTree''"
    using ne by (simp add: h' tool_at_def js_get_def tools_object_def literal_prop_def)
  show "tool_at h' target key ''getComponentStates'' = VFunction ''getComponentStates''"
    using ne by (simp add: h' tool_at_def js_get_def tools_object_def literal_prop_def)
  show "tool_at h' target key ''getUnnecessaryRenderedComponents'' = VFunction ''queryWastedRender''"
    using ne by (simp add: h' tool_at_def js_get_def tools_object_def literal_prop_def)
qed

theorem init_idempotent_property_readonly_witness:
  "\<not> has_own empty_page 0 ''__VITE_REACT_MCP_TOOLS__'' \<and>
   objects empty_page (next_ref empty_page) = None \<and>
   init 0 ''__VITE_REACT_MCP_TOOLS__'' empty_page = Inr page_after_init \<and>
   has_own page_after_init 0 ''__VITE_REACT_MCP_TOOLS__'' \<and>
   init 0 ''__VITE_REACT_MCP_TOOLS__'' page_after_init = Inr page_after_init \<and>
   js_set page_after_init 0 ''__VITE_REACT_MCP_TOOLS__'' VUndefined = (False, page_after_init) \<and>
   tool_at page_after_init 0 ''__VITE_REACT_MCP_TOOLS__'' ''highlightComponent'' = VFunction ''highlightComponent''"
proof -
  have a: "\<not> has_own empty_page 0 ''__VITE_REACT_MCP_TOOLS__''"
    by (simp add: has_own_def empty_page_def)
  have b: "objects empty_page (next_ref empty_page) = None"
    by (simp add: empty_page_def)
  show ?thesis
    using a b init_empty_page
      init_idempotent_property_readonly [of empty_page 0 "''__VITE_REACT_MCP_TOOLS__''" page_after_init]
    by simp
qed

text \<open>
  C10, as stated, fails: after \<open>init\<close> has installed the property on an empty page, the
  assignment \<open>target.KEY.highlightComponent = replacement\<close> succeeds, and the tool reached
  through the global is the replacement. The property is not writable, but the object it
  refers to is not frozen.
\<close>

theorem tool_functions_reassignable:
  "init 0 ''__VITE_REACT_MCP_TOOLS__'' empty_page = Inr page_after_init \<and>
   tool_at page_after_init 0 ''__VITE_REACT_MCP_TOOLS__'' ''highlightComponent'' = VFunction ''highlightComponent'' \<and>
   fst (js_set page_after_init 1 ''highlightComponent'' (VFunction ''replacement'')) \<and>
   tool_at (snd (js_set page_after_init 1 ''highlightComponent'' (VFunction ''replacement'')))
     0 ''__VITE_REACT_MCP_TOOLS__'' ''highlightComponent'' = VFunction ''replacement''"
proof -
  have "tool_at page_after_init 0 ''__VITE_REACT_MCP_TOOLS__'' ''highlightComponent'' = VFunction ''highlightComponent''"
    by (simp add: tool_at_def js_get_def page_after_init_def tools_object_def literal_prop_def)
  moreover have "fst (js_set page_after_init 1 ''highlightComponent'' (VFunction ''replacement''))"
    by (simp add: js_set_def page_after_init_def tools_object_def literal_prop_def)
  moreover have "tool_at (snd (js_set page_after_init 1 ''highlightComponent'' (VFunction ''replacement'')))
     0 ''__VITE_REACT_MCP_TOOLS__'' ''highlightComponent'' = VFunction ''replacement''"
    by (simp add: tool_at_def js_get_def js_set_def page_after_init_def tools_object_def literal_prop_def)
  ultimately show ?thesis using init_empty_page by simp
qed

section \<open>The bridge handlers in the browser: results\<close>

text \<open>
  C8. When the data of a \<open>get-unnecessary-rerenders\<close> event parses, the tool returns a
  result, and \<open>JSON.stringify\<close> throws on that result, the handler does not throw: it
  sends exactly one event, \<open>get-unnecessary-rerenders-response\<close>, whose payload is the
  JSON text of \<open>{error: message}\<close> with the message of what was thrown.
\<close>

theorem serialization_failure_sends_error_payload:
  assumes "json_parse data = Inr d" and "d \<noteq> JNull"
    and "tool (member_of d ''timeframe'')
           \<lparr>allComponents = truthy (member_of d ''allComponents''),
            debugMode = truthy (member_of d ''debugMode'')\<rparr> = Inr wastedRenders"
    and "stringify wastedRenders = Inl e"
  shows "on_get_unnecessary_rerenders json_parse tool stringify data =
     Inr [\<lparr>event = ''get-unnecessary-rerenders-response'',
           payload = ''{'' @ quote ''error'' @ '':'' @ quote (thrown_message e) @ ''}''\<rparr>]"
  using assms by (simp add: on_get_unnecessary_rerenders_def error_payload_def)

theorem serialization_failure_sends_error_payload_witness:
  "on_get_unnecessary_rerenders (\<lambda>s. if s = ''{}'' then Inr (JObj []) else Inl (ErrorObj ''SyntaxError''))
     (\<lambda>timeframe opts. Inr (0::nat))
     (\<lambda>v. Inl (ErrorObj ''Converting circular structure to JSON'')) ''{}'' =
   Inr [\<lparr>event = ''get-unnecessary-rerenders-response'',
         payload = ''{'' @ quote ''error'' @ '':'' @ quote ''Converting circular structure to JSON'' @ ''}''\<rparr>]"
  using serialization_failure_sends_error_payload
    [of "\<lambda>s. if s = ''{}'' then Inr (JObj []) else Inl (ErrorObj ''SyntaxError'')" "''{}''" "JObj []"
        "\<lambda>timeframe opts. Inr (0::nat)" 0
        "\<lambda>v. Inl (ErrorObj ''Converting circular structure to JSON'')"
        "ErrorObj ''Converting circular structure to JSON''"]
  by (simp add: thrown_message_def)

section \<open>The queue of waiting calls\<close>

lemma settle_at:
  "settle hit out ls rs c =
     (case filter (\<lambda>l. hit l \<and> pcall l = c) ls of [] \<Rightarrow> rs c | ms \<Rightarrow> Some (out (last ms)))"
  unfolding settle_def
proof (induction ls arbitrary: rs)
  case Nil
  show ?case by simp
next
  case (Cons l ls)
  show ?case
    by (simp add: Cons.IH split: list.splits)
qed

lemma settle_miss:
  assumes "\<forall>l\<in>set ls. hit l \<longrightarrow> pcall l \<noteq> c"
  shows "settle hit out ls rs c = rs c"
proof -
  have "filter (\<lambda>m. hit m \<and> pcall m = c) ls = []" using assms by (auto simp: filter_empty_conv)
  then show ?thesis by (simp add: settle_at)
qed


lemma settle_only:
  assumes "distinct (map pcall ls)" "l \<in> set ls" "hit l"
  shows "settle hit out ls rs (pcall l) = Some (out l)"
proof -
  have "filter (\<lambda>m. hit m \<and> pcall m = pcall l) ls = [l]"
    using assms(1,2)
  proof (induction ls)
    case Nil
    then show ?case by simp
  next
    case (Cons a ls)
    show ?case
    proof (cases "a = l")
      case True
      have "pcall l \<notin> pcall ` set ls" using Cons.prems True by simp
      then have "\<forall>m\<in>set ls. \<not> (hit m \<and> pcall m = pcall l)" by (metis imageI)
      then have "filter (\<lambda>m. hit m \<and> pcall m = pcall l) ls = []"
        by (simp add: filter_empty_conv)
      then show ?thesis using True assms(3) by simp
    next
      case False
      then have "l \<in> set ls" using Cons.prems by simp
      moreover have "pcall a \<noteq> pcall l" using Cons.prems \<open>l \<in> set ls\<close> by auto
      ultimately show ?thesis using Cons by simp
    qed
  qed
  then show ?thesis by (simp add: settle_at)
qed

lemma take_oldest_None: "take_oldest n ls = None \<longleftrightarrow> (\<forall>l\<in>set ls. pevent l \<noteq> n)"
  by (induction ls) (auto split: option.splits)

lemma take_oldest_Some:
  assumes "take_oldest n ls = Some (l, r)"
  shows "\<exists>xs ys. ls = xs @ l # ys \<and> r = xs @ ys \<and> pevent l = n \<and> (\<forall>x\<in>set xs. pevent x \<noteq> n)"
  using assms
proof (induction ls arbitrary: r)
  case Nil
  then show ?case by simp
next
  case (Cons a ls)
  show ?case
  proof (cases "pevent a = n")
    case True
    then have "l = a" "r = ls" using Cons.prems by simp_all
    then have "a # ls = [] @ l # ls \<and> r = [] @ ls \<and> pevent l = n \<and> (\<forall>x\<in>set []. pevent x \<noteq> n)"
      using True by simp
    then show ?thesis by blast
  next
    case False
    then obtain r' where t: "take_oldest n ls = Some (l, r')" and r: "r = a # r'"
      using Cons.prems by (auto split: option.splits)
    obtain xs ys where "ls = xs @ l # ys" "r' = xs @ ys" "pevent l = n" "\<forall>x\<in>set xs. pevent x \<noteq> n"
      using Cons.IH [OF t] by blast
    then have "a # ls = (a # xs) @ l # ys \<and> r = (a # xs) @ ys \<and> pevent l = n \<and>
        (\<forall>x\<in>set (a # xs). pevent x \<noteq> n)"
      using False r by simp
    then show ?thesis by blast
  qed
qed

lemma take_oldest_first:
  assumes "\<forall>x\<in>set xs. pevent x \<noteq> n" "pevent l = n"
  shows "take_oldest n (xs @ l # ys) = Some (l, xs @ ys)"
  using assms by (induction xs) simp_all


lemma ws_receive_none:
  assumes "take_oldest n (listeners st) = None"
  shows "ws_receive n d st = st"
  using assms by (simp add: ws_receive_def)

lemma ws_receive_some:
  assumes "take_oldest n (listeners st) = Some (l, r)"
  shows "ws_receive n d st =
     st\<lparr>listeners := r,
        results := (if pwaiting l then (results st)(pcall l \<mapsto> Returned (text_result d)) else results st)\<rparr>"
  using assms by (simp add: ws_receive_def)

lemma bridge_call_valid:
  assumes "parse arguments = Inr args"
  shows "bridge_call stringify timeout parse eventName responseName c session arguments st =
     st\<lparr>outbox := outbox st @ [\<lparr>etype = ''custom'', ename = eventName, edata = stringify args\<rparr>],
        listeners := listeners st @
          [\<lparr>pcall = c, psession = session, pevent = responseName, pdeadline = now st + timeout,
            pwaiting = True\<rparr>]\<rparr>"
  using assms by (simp add: bridge_call_def waitForEvent_def ws_send_def)

lemma call_tool_known:
  assumes "schema_of S name = Some parse"
  shows "call_tool S stringify timeout session name arguments st =
     bridge_call stringify timeout parse name (name @ ''-response'') (next_call st) session arguments
       (st\<lparr>next_call := Suc (next_call st)\<rparr>)"
  using assms by (auto simp: schema_of_def call_tool_def Let_def split: if_splits)

lemma call_tool_valid:
  assumes "schema_of S name = Some parse" "parse arguments = Inr args"
  shows "call_tool S stringify timeout session name arguments st =
     st\<lparr>next_call := Suc (next_call st),
        outbox := outbox st @ [\<lparr>etype = ''custom'', ename = name, edata = stringify args\<rparr>],
        listeners := listeners st @
          [\<lparr>pcall = next_call st, psession = session, pevent = name @ ''-response'',
            pdeadline = now st + timeout, pwaiting = True\<rparr>]\<rparr>"
  using assms(2) by (simp add: call_tool_known [OF assms(1)] bridge_call_valid)

lemma call_tool_invalid:
  assumes "schema_of S name = Some parse" "parse arguments = Inl issues"
  shows "call_tool S stringify timeout session name arguments st =
     st\<lparr>next_call := Suc (next_call st),
        results := (results st)(next_call st \<mapsto> Thrown (Error (''Invalid input: '' @ issues)))\<rparr>"
  using assms(2) by (simp add: call_tool_known [OF assms(1)] bridge_call_def)

lemma call_tool_unknown:
  assumes "schema_of S name = None"
  shows "call_tool S stringify timeout session name arguments st =
     st\<lparr>next_call := Suc (next_call st),
        results := (results st)(next_call st \<mapsto> Thrown (Error (''Unknown tool: '' @ name)))\<rparr>"
  using assms by (auto simp: schema_of_def call_tool_def Let_def split: if_splits)

lemma call_tool_frame:
  "next_call (call_tool S stringify timeout session name arguments st) = Suc (next_call st)"
  "now (call_tool S stringify timeout session name arguments st) = now st"
  "transports (call_tool S stringify timeout session name arguments st) = transports st"
  "c \<noteq> next_call st \<Longrightarrow> results (call_tool S stringify timeout session name arguments st) c = results st c"
  "l \<in> set (listeners (call_tool S stringify timeout session name arguments st)) \<Longrightarrow>
     l \<in> set (listeners st) \<or> pcall l = next_call st \<and> pwaiting l \<and> pevent l = name @ ''-response''"
  "set (listeners st) \<subseteq> set (listeners (call_tool S stringify timeout session name arguments st))"
proof -
  consider (unknown) "schema_of S name = None"
    | (invalid) parse issues where "schema_of S name = Some parse" "parse arguments = Inl issues"
    | (valid) parse args where "schema_of S name = Some parse" "parse arguments = Inr args"
    by (cases "schema_of S name"; cases "the (schema_of S name) arguments") auto
  note cs = this
  show "next_call (call_tool S stringify timeout session name arguments st) = Suc (next_call st)"
    using cs by cases (simp_all add: call_tool_unknown call_tool_invalid call_tool_valid)
  show "now (call_tool S stringify timeout session name arguments st) = now st"
    using cs by cases (simp_all add: call_tool_unknown call_tool_invalid call_tool_valid)
  show "transports (call_tool S stringify timeout session name arguments st) = transports st"
    using cs by cases (simp_all add: call_tool_unknown call_tool_invalid call_tool_valid)
  show "c \<noteq> next_call st \<Longrightarrow> results (call_tool S stringify timeout session name arguments st) c = results st c"
    using cs by cases (simp_all add: call_tool_unknown call_tool_invalid call_tool_valid)
  show "l \<in> set (listeners (call_tool S stringify timeout session name arguments st)) \<Longrightarrow>
     l \<in> set (listeners st) \<or> pcall l = next_call st \<and> pwaiting l \<and> pevent l = name @ ''-response''"
    using cs by cases (auto simp add: call_tool_unknown call_tool_invalid call_tool_valid)
  show "set (listeners st) \<subseteq> set (listeners (call_tool S stringify timeout session name arguments st))"
    using cs by cases (auto simp add: call_tool_unknown call_tool_invalid call_tool_valid)
qed

lemma run_append: "run S stringify timeout (xs @ ys) st = run S stringify timeout ys (run S stringify timeout xs st)"
  by (simp add: run_def)

lemma run_empty: "run S stringify timeout [] st = st"
  by (simp add: run_def)

lemma orderly_initial: "orderly initial_state"
  by (simp add: orderly_def initial_state_def)

lemma orderly_call_tool:
  assumes "orderly st"
  shows "orderly (call_tool S stringify timeout session name arguments st)"
proof -
  consider (unknown) "schema_of S name = None"
    | (invalid) parse issues where "schema_of S name = Some parse" "parse arguments = Inl issues"
    | (valid) parse args where "schema_of S name = Some parse" "parse arguments = Inr args"
    by (cases "schema_of S name"; cases "the (schema_of S name) arguments") auto
  then show ?thesis
  proof cases
    case unknown
    then show ?thesis using assms by (auto simp: call_tool_unknown orderly_def)
  next
    case invalid
    then show ?thesis using assms by (auto simp: call_tool_invalid orderly_def)
  next
    case valid
    then show ?thesis using assms by (auto simp: call_tool_valid orderly_def)
  qed
qed

lemma orderly_ws_receive:
  assumes "orderly st"
  shows "orderly (ws_receive n d st)"
proof (cases "take_oldest n (listeners st)")
  case None
  then show ?thesis using assms by (simp add: ws_receive_none)
next
  case (Some p)
  obtain l r where p: "p = (l, r)" by (cases p)
  obtain xs ys where ls: "listeners st = xs @ l # ys" and r: "r = xs @ ys"
    using take_oldest_Some [of n "listeners st" l r] Some p by auto
  have d: "distinct (map pcall (xs @ l # ys))" using assms ls by (simp add: orderly_def)
  have "pcall l \<notin> pcall ` set (xs @ ys)" using d by auto
  then have other: "pcall m \<noteq> pcall l" if "m \<in> set (xs @ ys)" for m
    using that by (metis imageI)
  have lt: "pcall l < next_call st" using assms ls by (simp add: orderly_def)
  show ?thesis
    unfolding orderly_def
  proof (intro conjI ballI allI impI)
    fix m assume m: "m \<in> set (listeners (ws_receive n d st))"
    then have m': "m \<in> set (xs @ ys)" using Some p r by (simp add: ws_receive_some)
    then have m'': "m \<in> set (listeners st)" using ls by auto
    show "pcall m < next_call (ws_receive n d st)"
      using assms m'' Some p by (simp add: ws_receive_some orderly_def)
    assume "pwaiting m"
    then have "results st (pcall m) = None" using assms m'' by (simp add: orderly_def)
    then show "results (ws_receive n d st) (pcall m) = None"
      using other [OF m'] Some p by (simp add: ws_receive_some)
  next
    fix c assume "next_call (ws_receive n d st) \<le> c"
    then have c: "next_call st \<le> c" using Some p by (simp add: ws_receive_some)
    then have "results st c = None" using assms by (simp add: orderly_def)
    then show "results (ws_receive n d st) c = None"
      using c lt Some p by (simp add: ws_receive_some)
  next
    show "distinct (map pcall (listeners (ws_receive n d st)))"
      using d Some p r by (simp add: ws_receive_some)
  qed
qed

lemma tick_listeners_pcall: "map pcall (listeners (tick st)) = map pcall (listeners st)"
  by (simp add: tick_def comp_def)

lemma orderly_tick:
  assumes "orderly st"
  shows "orderly (tick st)"
proof -
  let ?hit = "\<lambda>l. pwaiting l \<and> pdeadline l \<le> Suc (now st)"
  have d: "distinct (map pcall (listeners st))" using assms by (simp add: orderly_def)
  have sep: "pcall m \<noteq> pcall l" if "l \<in> set (listeners st)" "m \<in> set (listeners st)" "\<not> ?hit l" "?hit m" for l m
  proof -
    have "l \<noteq> m" using that by auto
    then show ?thesis using d that(1,2) by (metis distinct_map inj_onD)
  qed
  have a: "pcall l' < next_call (tick st) \<and> (pwaiting l' \<longrightarrow> results (tick st) (pcall l') = None)"
    if "l' \<in> set (listeners (tick st))" for l'
  proof -
    have "l' \<in> (\<lambda>l. if ?hit l then l\<lparr>pwaiting := False\<rparr> else l) ` set (listeners st)"
      using that by (simp add: tick_def)
    then obtain l where l: "l \<in> set (listeners st)" and l': "l' = (if ?hit l then l\<lparr>pwaiting := False\<rparr> else l)"
      by (rule imageE)
    have lt: "pcall l' < next_call (tick st)" using assms l l' by (simp add: orderly_def tick_def)
    have "results (tick st) (pcall l') = None" if w: "pwaiting l'"
    proof -
      have nh: "\<not> ?hit l" and eq: "l' = l" using w l' by (auto split: if_splits)
      then have "results st (pcall l) = None" using assms l w by (simp add: orderly_def)
      moreover have "\<forall>m\<in>set (listeners st). ?hit m \<longrightarrow> pcall m \<noteq> pcall l"
        using sep [OF l _ nh] by blast
      ultimately show ?thesis using eq by (simp add: tick_def settle_miss)
    qed
    then show ?thesis using lt by simp
  qed
  have b: "results (tick st) c = None" if "next_call (tick st) \<le> c" for c
  proof -
    have c: "next_call st \<le> c" using that by (simp add: tick_def)
    then have "\<forall>m\<in>set (listeners st). ?hit m \<longrightarrow> pcall m \<noteq> c"
      using assms by (auto simp: orderly_def)
    moreover have "results st c = None" using assms c by (simp add: orderly_def)
    ultimately show ?thesis by (simp add: tick_def settle_miss)
  qed
  have c: "distinct (map pcall (listeners (tick st)))"
    using d by (simp add: tick_listeners_pcall)
  show ?thesis
    unfolding orderly_def using a b c by blast
qed

lemma orderly_step:
  assumes "orderly st"
  shows "orderly (step S stringify timeout i st)"
proof (cases i)
  case (CallTool session name arguments)
  then show ?thesis using assms by (simp add: orderly_call_tool)
next
  case (WsEvent n d)
  then show ?thesis using assms by (simp add: orderly_ws_receive)
next
  case Tick
  then show ?thesis using assms by (simp add: orderly_tick)
next
  case (SseOpen sid t)
  then show ?thesis using assms by (simp add: sse_open_def orderly_def)
next
  case (SseClose sid)
  then show ?thesis using assms by (simp add: sse_close_def orderly_def)
qed

lemma orderly_run:
  assumes "orderly st"
  shows "orderly (run S stringify timeout ins st)"
  using assms unfolding run_def
  by (induction ins arbitrary: st) (simp_all add: orderly_step)

lemma orderly_reached: "orderly (run S stringify timeout ins initial_state)"
  using orderly_initial by (rule orderly_run)

subsection \<open>Examples\<close>

lemma example_tree_schema:
  "schema_of example_schemas ''get-component-tree'' = Some any_object_schema"
  by (simp add: schema_of_def example_schemas_def)


lemma example_highlight_schema:
  "schema_of example_schemas ''highlight-component'' = Some spec_HighlightComponentSchema"
  by (simp add: schema_of_def example_schemas_def)

lemma any_object_empty: "any_object_schema (Some (JObj [])) = Inr (JObj [])"
  by (simp add: any_object_schema_def)



lemma example_stringify_empty: "example_stringify (JObj []) = ''{}''"
  by (simp add: example_stringify_def)





lemma before_close:
  "run example_schemas example_stringify 5
     [SseOpen ''s1'' (), CallTool ''s1'' ''get-component-tree'' (Some (JObj []))] initial_state =
     \<lparr>transports = [''s1'' \<mapsto> ()],
      outbox = [\<lparr>etype = ''custom'', ename = ''get-component-tree'', edata = ''{}''\<rparr>],
      listeners = [\<lparr>pcall = 0, psession = ''s1'', pevent = ''get-component-tree-response'',
                     pdeadline = 5, pwaiting = True\<rparr>],
      results = Map.empty, next_call = 1, now = 0\<rparr>"
  by (simp add: run_def sse_open_def example_stringify_empty
      call_tool_valid [OF example_tree_schema any_object_empty] initial_state_def)

lemma call_then_close_run:
  "run example_schemas example_stringify 5 call_then_close initial_state =
     sse_close ''s1'' (run example_schemas example_stringify 5
       [SseOpen ''s1'' (), CallTool ''s1'' ''get-component-tree'' (Some (JObj []))] initial_state)"
  by (simp add: run_def call_then_close_def)

section \<open>The tool-call handler: results\<close>

text \<open>
  C4. For each of the four tools, when the arguments do not parse against the tool's
  schema the handler throws \<open>Error("Invalid input: ...")\<close> and publishes nothing: the
  events sent to the browser and the waiting calls are what they were before the request.
  Parsing comes before \<open>ws.send\<close>. The witness sends \<open>{"componentName": 123}\<close> to
  \<open>highlight-component\<close>.
\<close>

theorem invalid_arguments_publish_nothing:
  assumes "schema_of S name = Some parse" and "parse arguments = Inl issues"
  shows "outbox (call_tool S stringify timeout session name arguments st) = outbox st \<and>
     listeners (call_tool S stringify timeout session name arguments st) = listeners st \<and>
     results (call_tool S stringify timeout session name arguments st) =
       (results st)(next_call st \<mapsto> Thrown (Error (''Invalid input: '' @ issues)))"
  by (simp add: call_tool_invalid [OF assms])

theorem invalid_arguments_publish_nothing_witness:
  "schema_of example_schemas ''highlight-component'' = Some spec_HighlightComponentSchema \<and>
   spec_HighlightComponentSchema (Some (JObj [(''componentName'', JNum 123)])) =
     Inl ''componentName: invalid_type'' \<and>
   outbox (call_tool example_schemas example_stringify 5 ''s1'' ''highlight-component''
       (Some (JObj [(''componentName'', JNum 123)])) (initial_state :: unit server_state)) = [] \<and>
   results (call_tool example_schemas example_stringify 5 ''s1'' ''highlight-component''
       (Some (JObj [(''componentName'', JNum 123)])) (initial_state :: unit server_state)) 0 =
     Some (Thrown (Error ''Invalid input: componentName: invalid_type''))"
proof -
  have b: "spec_HighlightComponentSchema (Some (JObj [(''componentName'', JNum 123)])) =
     Inl ''componentName: invalid_type''"
    by (simp add: spec_HighlightComponentSchema_def)
  show ?thesis
    using example_highlight_schema b
      invalid_arguments_publish_nothing [OF example_highlight_schema b,
        of example_stringify 5 "''s1''" "initial_state :: unit server_state"]
    by (simp add: initial_state_def)
qed

section \<open>The HTTP endpoints: results\<close>

text \<open>
  C7, as the code has it. On \<open>/messages\<close>: an \<open>OPTIONS\<close> request is answered 204
  whatever its query; a method that is neither \<open>POST\<close> nor \<open>OPTIONS\<close> is answered 405; a
  \<open>POST\<close> whose \<open>sessionId\<close> is missing or empty is answered 400; a \<open>POST\<close> whose
  \<open>sessionId\<close> names no registered transport is answered 404. In every case the
  middleware leaves the server's state as it was.
\<close>

theorem messages_status_by_method_and_session:
  "(rmethod req = ''OPTIONS'' \<longrightarrow> status_of (fst (messages_handler search_get st req)) = Some 204) \<and>
   (rmethod req \<noteq> ''POST'' \<and> rmethod req \<noteq> ''OPTIONS'' \<longrightarrow>
      status_of (fst (messages_handler search_get st req)) = Some 405) \<and>
   (rmethod req = ''POST'' \<and>
    (search_get (query_text (rurl req)) ''sessionId'' = None \<or>
     search_get (query_text (rurl req)) ''sessionId'' = Some []) \<longrightarrow>
      status_of (fst (messages_handler search_get st req)) = Some 400) \<and>
   (rmethod req = ''POST'' \<and> search_get (query_text (rurl req)) ''sessionId'' = Some sid \<and>
    sid \<noteq> [] \<and> transports st sid = None \<longrightarrow>
      status_of (fst (messages_handler search_get st req)) = Some 404) \<and>
   snd (messages_handler search_get st req) = st"
  by (auto simp: messages_handler_def status_of_def split: option.splits)

theorem messages_status_by_method_and_session_witness:
  "status_of (fst (messages_handler plain_search_get (initial_state :: unit server_state)
      \<lparr>rmethod = ''OPTIONS'', rurl = Some ''/''\<rparr>)) = Some 204 \<and>
   status_of (fst (messages_handler plain_search_get (initial_state :: unit server_state)
      \<lparr>rmethod = ''GET'', rurl = Some ''/?sessionId=xyz''\<rparr>)) = Some 405 \<and>
   plain_search_get (query_text (Some ''/'')) ''sessionId'' = None \<and>
   status_of (fst (messages_handler plain_search_get (initial_state :: unit server_state)
      \<lparr>rmethod = ''POST'', rurl = Some ''/''\<rparr>)) = Some 400 \<and>
   plain_search_get (query_text (Some ''/?sessionId=xyz'')) ''sessionId'' = Some ''xyz'' \<and>
   transports (initial_state :: unit server_state) ''xyz'' = None \<and>
   status_of (fst (messages_handler plain_search_get (initial_state :: unit server_state)
      \<lparr>rmethod = ''POST'', rurl = Some ''/?sessionId=xyz''\<rparr>)) = Some 404 \<and>
   snd (messages_handler plain_search_get (initial_state :: unit server_state)
      \<lparr>rmethod = ''POST'', rurl = Some ''/?sessionId=xyz''\<rparr>) = initial_state"
proof -
  have q1: "plain_search_get (query_text (Some ''/'')) ''sessionId'' = None"
    by (simp add: plain_search_get_def query_text_def)
  have q2: "plain_search_get (query_text (Some ''/?sessionId=xyz'')) ''sessionId'' = Some ''xyz''"
    by (simp add: plain_search_get_def query_text_def)
  have t: "transports (initial_state :: unit server_state) ''xyz'' = None"
    by (simp add: initial_state_def)
  show ?thesis
    using q1 q2 t
      messages_status_by_method_and_session [of "\<lparr>rmethod = ''OPTIONS'', rurl = Some ''/''\<rparr>"
        plain_search_get "initial_state :: unit server_state" "''xyz''"]
      messages_status_by_method_and_session [of "\<lparr>rmethod = ''GET'', rurl = Some ''/?sessionId=xyz''\<rparr>"
        plain_search_get "initial_state :: unit server_state" "''xyz''"]
      messages_status_by_method_and_session [of "\<lparr>rmethod = ''POST'', rurl = Some ''/''\<rparr>"
        plain_search_get "initial_state :: unit server_state" "''xyz''"]
      messages_status_by_method_and_session [of "\<lparr>rmethod = ''POST'', rurl = Some ''/?sessionId=xyz''\<rparr>"
        plain_search_get "initial_state :: unit server_state" "''xyz''"]
    by simp
qed

text \<open>
  C7, as stated, fails: an \<open>OPTIONS\<close> request without a \<open>sessionId\<close> is answered 204,
  not 400. The method is looked at before the query.
\<close>

theorem options_without_session_is_204:
  "plain_search_get (query_text (rurl \<lparr>rmethod = ''OPTIONS'', rurl = Some ''/''\<rparr>)) ''sessionId'' = None \<and>
   status_of (fst (messages_handler plain_search_get (initial_state :: unit server_state)
      \<lparr>rmethod = ''OPTIONS'', rurl = Some ''/''\<rparr>)) = Some 204 \<and>
   status_of (fst (messages_handler plain_search_get (initial_state :: unit server_state)
      \<lparr>rmethod = ''OPTIONS'', rurl = Some ''/''\<rparr>)) \<noteq> Some 400"
  by (simp add: plain_search_get_def query_text_def messages_handler_def status_of_def)

section \<open>Waiting calls and their responses: results\<close>














subsection \<open>Timeouts\<close>

lemma awaiting_step:
  assumes "awaiting c resp D st" "quiet resp i"
  shows "awaiting c resp D (step S stringify timeout i st)"
proof -
  have o: "orderly st" and c: "c < next_call st" using assms(1) by (simp_all add: awaiting_def)
  have o': "orderly (step S stringify timeout i st)" using o by (rule orderly_step)
  have d: "distinct (map pcall (listeners st))" using o by (simp add: orderly_def)
  have settled: "pcall l \<noteq> c" if "l \<in> set (listeners st)" "pwaiting l" "results st c \<noteq> None" for l
    using o that by (auto simp: orderly_def)
  show ?thesis
  proof (cases i)
    case (CallTool session name arguments)
    let ?st' = "call_tool S stringify timeout session name arguments st"
    have "results ?st' c = results st c" using c by (simp add: call_tool_frame)
    moreover have "set (listeners st) \<subseteq> set (listeners ?st')" by (rule call_tool_frame)
    moreover have "now ?st' = now st" "next_call ?st' = Suc (next_call st)" by (simp_all add: call_tool_frame)
    ultimately show ?thesis
      using assms(1) o' unfolding awaiting_def CallTool by (auto split: if_splits)
  next
    case (WsEvent n d)
    then have ne: "n \<noteq> resp" using assms(2) by simp
    show ?thesis
    proof (cases "take_oldest n (listeners st)")
      case None
      then show ?thesis using assms(1) WsEvent by (simp add: ws_receive_none)
    next
      case (Some p)
      obtain l r where p: "p = (l, r)" by (cases p)
      obtain xs ys where ls: "listeners st = xs @ l # ys" and r: "r = xs @ ys" and ev: "pevent l = n"
        using take_oldest_Some [of n "listeners st" l r] Some p by auto
      have rw: "ws_receive n d st = st\<lparr>listeners := xs @ ys,
          results := (if pwaiting l then (results st)(pcall l \<mapsto> Returned (text_result d)) else results st)\<rparr>"
        using Some p r by (simp add: ws_receive_some)
      have lin: "l \<in> set (listeners st)" using ls by simp
      show ?thesis
      proof (cases "now st < D")
        case True
        then obtain l0 where l0: "l0 \<in> set (listeners st)" "pcall l0 = c" "pevent l0 = resp"
            "pdeadline l0 = D" "pwaiting l0" and res: "results st c = None"
          using assms(1) by (auto simp: awaiting_def)
        have "l0 \<noteq> l" using l0 ev ne by auto
        then have keep: "l0 \<in> set (xs @ ys)" using l0(1) ls by auto
        have "pcall l \<noteq> c" using d l0 lin \<open>l0 \<noteq> l\<close> by (metis distinct_map inj_onD)
        then have "results (ws_receive n d st) c = None" using res by (simp add: rw)
        then show ?thesis
          using True o' c keep l0 unfolding awaiting_def WsEvent by (auto simp: rw)
      next
        case False
        then have res: "results st c = Some (Thrown (TimeoutError resp))"
          using assms(1) by (simp add: awaiting_def)
        then have "pwaiting l \<Longrightarrow> pcall l \<noteq> c" using settled [OF lin] by simp
        then have "results (ws_receive n d st) c = Some (Thrown (TimeoutError resp))"
          using res by (auto simp: rw)
        then show ?thesis
          using False o' c unfolding awaiting_def WsEvent by (simp add: rw)
      qed
    qed
  next
    case Tick
    let ?hit = "\<lambda>l. pwaiting l \<and> pdeadline l \<le> Suc (now st)"
    show ?thesis
    proof (cases "now st < D")
      case True
      then obtain l0 where l0: "l0 \<in> set (listeners st)" "pcall l0 = c" "pevent l0 = resp"
          "pdeadline l0 = D" "pwaiting l0" and res: "results st c = None"
        using assms(1) by (auto simp: awaiting_def)
      show ?thesis
      proof (cases "Suc (now st) < D")
        case True
        have "\<forall>m\<in>set (listeners st). ?hit m \<longrightarrow> pcall m \<noteq> c"
        proof (intro ballI impI)
          fix m assume m: "m \<in> set (listeners st)" "?hit m"
          then have "m \<noteq> l0" using l0 True by auto
          then show "pcall m \<noteq> c" using d l0 m by (metis distinct_map inj_onD)
        qed
        then have "results (tick st) c = None"
          using res by (simp add: tick_def settle_miss)
        moreover have "l0 \<in> set (listeners (tick st))"
        proof -
          have "(if ?hit l0 then l0\<lparr>pwaiting := False\<rparr> else l0) \<in>
              (\<lambda>l. if ?hit l then l\<lparr>pwaiting := False\<rparr> else l) ` set (listeners st)"
            using l0(1) by (rule imageI)
          then show ?thesis using l0 True by (simp add: tick_def)
        qed
        ultimately show ?thesis
          using True o' c l0 unfolding awaiting_def Tick by (auto simp: tick_def)
      next
        case False
        then have "?hit l0" using l0 by simp
        then have "results (tick st) c = Some (Thrown (TimeoutError resp))"
          using settle_only [OF d l0(1), of ?hit "\<lambda>l. Thrown (TimeoutError (pevent l))" "results st"] l0
          by (simp add: tick_def)
        then show ?thesis
          using False o' c unfolding awaiting_def Tick by (simp add: tick_def)
      qed
    next
      case False
      then have res: "results st c = Some (Thrown (TimeoutError resp))"
        using assms(1) by (simp add: awaiting_def)
      then have "\<forall>m\<in>set (listeners st). ?hit m \<longrightarrow> pcall m \<noteq> c"
        using settled by auto
      then have "results (tick st) c = Some (Thrown (TimeoutError resp))"
        using res by (simp add: tick_def settle_miss)
      then show ?thesis
        using False o' c unfolding awaiting_def Tick by (simp add: tick_def)
    qed
  next
    case (SseOpen sid t)
    then show ?thesis using assms(1) o' by (simp add: awaiting_def sse_open_def)
  next
    case (SseClose sid)
    then show ?thesis using assms(1) o' by (simp add: awaiting_def sse_close_def)
  qed
qed

lemma awaiting_run:
  assumes "awaiting c resp D st" "list_all (quiet resp) ins"
  shows "awaiting c resp D (run S stringify timeout ins st)"
  using assms unfolding run_def
  by (induction ins arbitrary: st) (simp_all add: awaiting_step)

lemma awaiting_call_tool:
  assumes "orderly st" "0 < timeout" "schema_of S name = Some parse" "parse arguments = Inr args"
  shows "awaiting (next_call st) (name @ ''-response'') (now st + timeout)
           (call_tool S stringify timeout session name arguments st)"
proof -
  have "orderly (call_tool S stringify timeout session name arguments st)"
    using assms(1) by (rule orderly_call_tool)
  moreover have "results st (next_call st) = None" using assms(1) by (simp add: orderly_def)
  ultimately show ?thesis
    using assms(2) by (simp add: awaiting_def call_tool_valid [OF assms(3,4)])
qed

lemma now_ticks: "now (run S stringify timeout (replicate n Tick) st) = now st + n"
  unfolding run_def by (induction n arbitrary: st) (simp_all add: tick_def)

lemma quiet_ticks: "list_all (quiet resp) (replicate n Tick)"
  by (induction n) simp_all

text \<open>
  C5. Take any state the server has reached, a timeout of at least one tick, and a call
  with valid arguments; let anything happen afterwards except a response event of the
  call's kind. Then as long as the clock is before the deadline (the time of the call
  plus the timeout) the call has no outcome, and once the clock is at or past the
  deadline the call has been rejected with the timeout error; it is thrown on to the
  client, since it is not a ZodError. In particular, after \<open>timeout\<close> ticks the call has
  ended with the timeout error: it does not hang.
\<close>

theorem call_times_out_at_deadline:
  assumes "schema_of S name = Some parse" and "parse arguments = Inr args" and "0 < timeout"
    and "list_all (quiet (name @ ''-response'')) ins"
  shows "(now (run S stringify timeout ins (call_tool S stringify timeout session name arguments
               (run S stringify timeout before initial_state)))
            < now (run S stringify timeout before initial_state) + timeout \<longrightarrow>
          results (run S stringify timeout ins (call_tool S stringify timeout session name arguments
               (run S stringify timeout before initial_state)))
            (next_call (run S stringify timeout before initial_state)) = None) \<and>
         (now (run S stringify timeout before initial_state) + timeout
            \<le> now (run S stringify timeout ins (call_tool S stringify timeout session name arguments
                 (run S stringify timeout before initial_state))) \<longrightarrow>
          results (run S stringify timeout ins (call_tool S stringify timeout session name arguments
               (run S stringify timeout before initial_state)))
            (next_call (run S stringify timeout before initial_state)) =
            Some (Thrown (TimeoutError (name @ ''-response'')))) \<and>
         results (run S stringify timeout (replicate timeout Tick)
             (call_tool S stringify timeout session name arguments
                (run S stringify timeout before initial_state)))
           (next_call (run S stringify timeout before initial_state)) =
           Some (Thrown (TimeoutError (name @ ''-response'')))"
proof -
  let ?st = "run S stringify timeout before initial_state"
  let ?st1 = "call_tool S stringify timeout session name arguments ?st"
  have i: "orderly ?st" by (rule orderly_reached)
  have a1: "awaiting (next_call ?st) (name @ ''-response'') (now ?st + timeout) ?st1"
    using i assms(3,1,2) by (rule awaiting_call_tool)
  have a: "awaiting (next_call ?st) (name @ ''-response'') (now ?st + timeout)
      (run S stringify timeout js ?st1)"
    if "list_all (quiet (name @ ''-response'')) js" for js
    using a1 that by (rule awaiting_run)
  have n1: "now ?st1 = now ?st" by (simp add: call_tool_frame)
  have t: "results (run S stringify timeout (replicate timeout Tick) ?st1) (next_call ?st) =
           Some (Thrown (TimeoutError (name @ ''-response'')))"
    using a [OF quiet_ticks, of timeout] by (simp add: awaiting_def now_ticks n1)
  show ?thesis
    using a [OF assms(4)] t by (auto simp: awaiting_def)
qed

theorem call_times_out_at_deadline_witness:
  "schema_of example_schemas ''get-component-tree'' = Some any_object_schema \<and>
   any_object_schema (Some (JObj [])) = Inr (JObj []) \<and> (0::nat) < 2 \<and>
   list_all (quiet ''get-component-tree-response'')
     [Tick, WsEvent ''highlight-component-response'' ''late'' :: unit input] \<and>
   results (run example_schemas example_stringify 2 [Tick, WsEvent ''highlight-component-response'' ''late'']
       (call_tool example_schemas example_stringify 2 ''s1'' ''get-component-tree'' (Some (JObj []))
          (initial_state :: unit server_state))) 0 = None \<and>
   results (run example_schemas example_stringify 2 [Tick, Tick, Tick]
       (call_tool example_schemas example_stringify 2 ''s1'' ''get-component-tree'' (Some (JObj []))
          (initial_state :: unit server_state))) 0 =
     Some (Thrown (TimeoutError ''get-component-tree-response'')) \<and>
   results (run example_schemas example_stringify 2 [Tick, Tick]
       (call_tool example_schemas example_stringify 2 ''s1'' ''get-component-tree'' (Some (JObj []))
          (initial_state :: unit server_state))) 0 =
     Some (Thrown (TimeoutError ''get-component-tree-response''))"
proof -
  have q1: "list_all (quiet ''get-component-tree-response'')
     [Tick, WsEvent ''highlight-component-response'' ''late'' :: unit input]" by simp
  have q2: "list_all (quiet ''get-component-tree-response'') [Tick, Tick, Tick :: unit input]" by simp
  have r: "replicate 2 (Tick :: unit input) = [Tick, Tick]" by (simp add: numeral_2_eq_2)
  have n0: "now (initial_state :: unit server_state) = 0" "next_call (initial_state :: unit server_state) = 0"
    by (simp_all add: initial_state_def)
  have nc: "now (call_tool example_schemas example_stringify 2 ''s1'' ''get-component-tree'' (Some (JObj []))
          (initial_state :: unit server_state)) = 0"
    by (simp add: call_tool_frame n0)
  have n1: "now (run example_schemas example_stringify 2 [Tick, WsEvent ''highlight-component-response'' ''late'']
       (call_tool example_schemas example_stringify 2 ''s1'' ''get-component-tree'' (Some (JObj []))
          (initial_state :: unit server_state))) = 1"
    by (simp add: run_def tick_def ws_receive_def nc split: option.splits)
  have n2: "now (run example_schemas example_stringify 2 [Tick, Tick, Tick]
       (call_tool example_schemas example_stringify 2 ''s1'' ''get-component-tree'' (Some (JObj []))
          (initial_state :: unit server_state))) = 3"
    by (simp add: run_def tick_def nc)
  show ?thesis
    using example_tree_schema any_object_empty q1 q2
      call_times_out_at_deadline [where S = example_schemas and name = "''get-component-tree''"
        and parse = any_object_schema and arguments = "Some (JObj [])" and args = "JObj []"
        and stringify = example_stringify
        and timeout = 2 and session = "''s1''" and before = "[] :: unit input list"
        and ins = "[Tick, WsEvent ''highlight-component-response'' ''late'']"]
      call_times_out_at_deadline [where S = example_schemas and name = "''get-component-tree''"
        and parse = any_object_schema and arguments = "Some (JObj [])" and args = "JObj []"
        and stringify = example_stringify
        and timeout = 2 and session = "''s1''" and before = "[] :: unit input list"
        and ins = "[Tick, Tick, Tick]"]
    by (simp add: run_empty r n0 n1 n2)
qed

subsection \<open>Closing a session\<close>

text \<open>
  C6, as the code has it. When the connection of a session closes, the session's
  transport is removed from \<open>transports\<close> and nothing else changes: the calls that wait
  stay as they are, those of the closed session too, and none is given an outcome. What
  happens to them later is what would have happened without the close: closing commutes
  with the arrival of a response event and with the clock, and the oldest wait on an
  event, also when it belongs to the closed session, is resolved by the next event of
  that name.
\<close>

theorem close_leaves_pending_calls:
  "transports (sse_close sessionId st) = (transports st)(sessionId := None) \<and>
   listeners (sse_close sessionId st) = listeners st \<and>
   results (sse_close sessionId st) = results st \<and>
   outbox (sse_close sessionId st) = outbox st \<and>
   results (ws_receive eventName d (sse_close sessionId st)) = results (ws_receive eventName d st) \<and>
   ws_receive eventName d (sse_close sessionId st) = sse_close sessionId (ws_receive eventName d st) \<and>
   tick (sse_close sessionId st) = sse_close sessionId (tick st) \<and>
   (listeners st = xs @ l # ys \<and> (\<forall>x\<in>set xs. pevent x \<noteq> eventName) \<and> pevent l = eventName \<and>
    pwaiting l \<and> psession l = sessionId \<longrightarrow>
      results (ws_receive eventName d (sse_close sessionId st)) (pcall l) =
        Some (Returned (text_result d)))"
proof -
  have a: "ws_receive eventName d (sse_close sessionId st) = sse_close sessionId (ws_receive eventName d st)"
    by (simp add: ws_receive_def sse_close_def split: option.splits)
  have b: "tick (sse_close sessionId st) = sse_close sessionId (tick st)"
    by (simp add: tick_def sse_close_def)
  have c: "results (ws_receive eventName d (sse_close sessionId st)) (pcall l) =
        Some (Returned (text_result d))"
    if "listeners st = xs @ l # ys" "\<forall>x\<in>set xs. pevent x \<noteq> eventName" "pevent l = eventName" "pwaiting l"
  proof -
    have "take_oldest eventName (listeners (sse_close sessionId st)) = Some (l, xs @ ys)"
      using that(1,2,3) by (simp add: sse_close_def take_oldest_first)
    then show ?thesis using that(4) by (simp add: ws_receive_some)
  qed
  have e: "results (ws_receive eventName d (sse_close sessionId st)) = results (ws_receive eventName d st)"
    unfolding a by (simp add: sse_close_def)
  show ?thesis
    using a b c e by (simp add: sse_close_def)
qed

theorem close_leaves_pending_calls_witness:
  "transports (run example_schemas example_stringify 5 call_then_close initial_state) ''s1'' = None \<and>
   map psession (listeners (run example_schemas example_stringify 5 call_then_close initial_state)) = [''s1''] \<and>
   map pwaiting (listeners (run example_schemas example_stringify 5 call_then_close initial_state)) = [True] \<and>
   results (ws_receive ''get-component-tree-response'' ''tree''
      (run example_schemas example_stringify 5 call_then_close initial_state)) 0 =
     Some (Returned (text_result ''tree''))"
proof -
  let ?pre = "run example_schemas example_stringify 5
       [SseOpen ''s1'' (), CallTool ''s1'' ''get-component-tree'' (Some (JObj []))]
       (initial_state :: unit server_state)"
  let ?l0 = "\<lparr>pcall = 0, psession = ''s1'', pevent = ''get-component-tree-response'',
              pdeadline = 5, pwaiting = True\<rparr>"
  note T = close_leaves_pending_calls [where sessionId = "''s1''" and st = ?pre
      and eventName = "''get-component-tree-response''" and d = "''tree''"
      and xs = "[]" and l = ?l0 and ys = "[]"]
  have t: "transports (sse_close ''s1'' ?pre) ''s1'' = None"
    using T by simp
  have ls: "listeners (sse_close ''s1'' ?pre) = [?l0]"
    using T by (simp add: before_close)
  have pre: "listeners ?pre = [] @ ?l0 # [] \<and>
      (\<forall>x\<in>set []. pevent x \<noteq> ''get-component-tree-response'') \<and>
      pevent ?l0 = ''get-component-tree-response'' \<and> pwaiting ?l0 \<and> psession ?l0 = ''s1''"
    by (simp add: before_close)
  have "results (ws_receive ''get-component-tree-response'' ''tree'' (sse_close ''s1'' ?pre)) (pcall ?l0) =
      Some (Returned (text_result ''tree''))"
    using T [THEN conjunct2, THEN conjunct2, THEN conjunct2, THEN conjunct2, THEN conjunct2,
          THEN conjunct2, THEN conjunct2, THEN mp, OF pre] .
  then have r0: "results (ws_receive ''get-component-tree-response'' ''tree'' (sse_close ''s1'' ?pre)) 0 =
      Some (Returned (text_result ''tree''))"
    by simp
  show ?thesis
    unfolding call_then_close_run using t ls r0 by simp
qed

text \<open>
  C6, as stated, fails: session \<open>s1\<close> connects, issues a \<open>get-component-tree\<close> call and
  its connection closes. The transport is gone, but the call of \<open>s1\<close> is still waiting
  and has no outcome: it was not rejected.
\<close>

theorem closed_session_call_still_pending:
  "transports (run example_schemas example_stringify 5 call_then_close initial_state) ''s1'' = None \<and>
   listeners (run example_schemas example_stringify 5 call_then_close initial_state) =
     [\<lparr>pcall = 0, psession = ''s1'', pevent = ''get-component-tree-response'', pdeadline = 5,
       pwaiting = True\<rparr>] \<and>
   results (run example_schemas example_stringify 5 call_then_close initial_state) 0 = None"
  unfolding call_then_close_run before_close by (simp add: sse_close_def)

end
